theory Spec2Isabelle
  imports Complex_Main "HOL-Library.Word"
begin

unbundle bit_operations_syntax

section \<open>The USB2000+ spectrometer driver (spec.py)\<close>

text \<open>
  Python integers are unbounded, so they are \<open>int\<close>; on \<open>int\<close> the operators
  \<open>AND\<close>, \<open>OR\<close>, \<open>push_bit\<close> and \<open>drop_bit\<close> have Python's meaning of
  \<open>&\<close>, \<open>|\<close>, \<open><<\<close> and \<open>>>\<close> (two's complement of unbounded width, the right
  shift rounding towards minus infinity). Wavelengths are \<open>real\<close>: the arithmetic of
  \<open>numpy.linspace\<close> is followed step by step, without the rounding of float64.
\<close>

subsection \<open>The device handle and the outside world\<close>

datatype error = USBError | OverflowError | ValueError

text \<open>
  What the program does to the outside world, in order: \<open>device.write(ep, data)\<close>,
  \<open>device.read(ep, size)\<close> and \<open>time.sleep(seconds)\<close>.
\<close>

datatype event = Write int "int list" | Read int int | Sleep real

text \<open>
  The device handle is opaque to the program. Its behaviour is a parameter: the outcome
  of the n-th write that reaches the transport (\<open>None\<close>: accepted) and of the n-th read
  (the bytes of the packet, or the error raised), together with the number of calls made
  so far and the trace of events.
\<close>

record device =
  trace :: "event list"
  write_outcome :: "nat \<Rightarrow> error option"
  read_outcome :: "nat \<Rightarrow> error + int list"
  writes_done :: nat
  reads_done :: nat

type_synonym 'a result = "(error + 'a) \<times> device"

text \<open>
  \<open>device.write\<close> converts its data to an array of unsigned bytes before the transfer:
  a value outside 0..255 raises OverflowError and nothing reaches the transport.
\<close>

definition dev_write :: "device \<Rightarrow> int \<Rightarrow> int list \<Rightarrow> unit result" where
  "dev_write d ep data =
     (if list_ex (\<lambda>b. b < 0 \<or> 255 < b) data then (Inl OverflowError, d)
      else
        let d' = d\<lparr>trace := trace d @ [Write ep data], writes_done := Suc (writes_done d)\<rparr>
        in case write_outcome d (writes_done d) of
             None \<Rightarrow> (Inr (), d')
           | Some e \<Rightarrow> (Inl e, d'))"

definition dev_read :: "device \<Rightarrow> int \<Rightarrow> int \<Rightarrow> (int list) result" where
  "dev_read d ep size_or_buffer =
     (read_outcome d (reads_done d),
      d\<lparr>trace := trace d @ [Read ep size_or_buffer], reads_done := Suc (reads_done d)\<rparr>)"

definition sleep :: "device \<Rightarrow> real \<Rightarrow> device" where
  "sleep d seconds = d\<lparr>trace := trace d @ [Sleep seconds]\<rparr>"

subsection \<open>Command protocol\<close>


definition integration_command :: "int \<Rightarrow> int list" where
  "integration_command time_ms =
     (let time_us = time_ms * 1000
      in [0x02] @ [time_us AND 0xFF,
                   drop_bit 8 time_us AND 0xFF,
                   drop_bit 16 time_us AND 0xFF,
                   drop_bit 24 time_us AND 0xFF])"

definition set_integration_time :: "device \<Rightarrow> int \<Rightarrow> unit result" where
  "set_integration_time d time_ms =
     (case dev_write d 0x01 (integration_command time_ms) of
        (Inl e, d') \<Rightarrow> (Inl e, d')
      | (Inr u, d') \<Rightarrow> (Inr (), sleep d' (1 / 10)))"

subsection \<open>Acquisition\<close>

text \<open>\<open>range(start, stop, step)\<close> for a positive step.\<close>

definition py_range :: "nat \<Rightarrow> nat \<Rightarrow> nat \<Rightarrow> nat list" where
  "py_range start stop step =
     map (\<lambda>k. start + k * step) [0..<(stop - start + step - 1) div step]"

text \<open>
  The read loop: one iteration per element of \<open>range(8)\<close>; a read that raises, whatever
  the error, leaves the loop (\<open>except: break\<close>).
\<close>

fun read_loop :: "nat list \<Rightarrow> device \<Rightarrow> int list \<Rightarrow> int list \<times> device" where
  "read_loop [] d data = (data, d)"
| "read_loop (i # rest) d data =
     (case dev_read d 0x82 512 of
        (Inl e, d') \<Rightarrow> (data, d')
      | (Inr packet, d') \<Rightarrow> read_loop rest d' (data @ packet))"

text \<open>The conversion loop: \<open>i\<close> runs over \<open>range(0, len(data), 2)\<close>.\<close>

fun pixel_loop :: "int list \<Rightarrow> nat list \<Rightarrow> int list \<Rightarrow> int list" where
  "pixel_loop data [] pixels = pixels"
| "pixel_loop data (i # rest) pixels =
     (if i + 1 < length data
      then pixel_loop data rest (pixels @ [data ! i OR push_bit 8 (data ! (i + 1))])
      else pixel_loop data rest pixels)"

definition convert_to_pixel_values :: "int list \<Rightarrow> int list" where
  "convert_to_pixel_values data = pixel_loop data (py_range 0 (length data) 2) []"

definition request_spectrum :: "device \<Rightarrow> (int list) result" where
  "request_spectrum d =
     (case dev_write d 0x01 [0x09] of
        (Inl e, d') \<Rightarrow> (Inl e, d')
      | (Inr u, d') \<Rightarrow>
          (case read_loop (py_range 0 8 1) (sleep d' (1 / 10)) [] of
             (data, d'') \<Rightarrow> (Inr (convert_to_pixel_values data), d'')))"

subsection \<open>Spectrum mapper\<close>

text \<open>
  \<open>numpy.linspace(start, stop, num)\<close> with its default \<open>endpoint=True\<close>: a negative
  \<open>num\<close> raises ValueError; the samples are \<open>arange(0, num)\<close> scaled by the step (or,
  when the step is zero or undefined, divided and multiplied by \<open>delta\<close>), shifted by
  \<open>start\<close>, and for more than one sample the last one is overwritten with \<open>stop\<close>.
\<close>

definition linspace :: "real \<Rightarrow> real \<Rightarrow> int \<Rightarrow> error + real list" where
  "linspace start stop num =
     (if num < 0 then Inl ValueError
      else
        let dv = num - 1;
            delta = stop - start;
            y = map real [0..<nat num];
            y1 = (if dv > 0
                  then (let step = delta / real_of_int dv
                        in if step = 0
                           then map (\<lambda>v. v / real_of_int dv * delta) y
                           else map (\<lambda>v. v * step) y)
                  else map (\<lambda>v. v * delta) y);
            y2 = map (\<lambda>v. v + start) y1
        in Inr (if num > 1 then y2[nat num - 1 := stop] else y2))"

definition interpret_spectrum ::
    "int list \<Rightarrow> real \<Rightarrow> real \<Rightarrow> error + (real \<times> int) list" where
  "interpret_spectrum active_pixels start_wavelength end_wavelength =
     (let num_pixels = int (length active_pixels)
      in case linspace start_wavelength end_wavelength num_pixels of
           Inl e \<Rightarrow> Inl e
         | Inr wavelengths \<Rightarrow> Inr (zip wavelengths active_pixels))"

subsection \<open>The main sequence\<close>



subsection \<open>Observing a trace\<close>


subsection \<open>Reference encodings\<close>

text \<open>
  The specification's words for the payload of the integration-time command, to compare
  the code with: the 4-byte little-endian encoding of a value, least significant byte
  first, and the value that a sequence of little-endian bytes stands for.
\<close>

definition le_bytes32 :: "int \<Rightarrow> int list" where
  "le_bytes32 v = [v mod 256, v div 256 mod 256, v div 65536 mod 256, v div 16777216 mod 256]"

definition le_value :: "int list \<Rightarrow> int" where
  "le_value bs = foldr (\<lambda>b acc. b + 256 * acc) bs 0"

section \<open>Properties\<close>

subsection \<open>The decoder\<close>

lemma pixel_loop_filter:
  "pixel_loop data idx pixels =
     pixels @ map (\<lambda>i. data ! i OR push_bit 8 (data ! (i + 1)))
                  (filter (\<lambda>i. i + 1 < length data) idx)"
  by (induction idx arbitrary: pixels) simp_all

lemma filter_less_upt: "a \<le> b \<Longrightarrow> filter (\<lambda>k. k < a) [0..<b] = [0..<a]"
  by (induction b) (auto simp: le_Suc_eq)

lemma py_range_pairs:
  "filter (\<lambda>i. i + 1 < n) (py_range 0 n 2) = map (\<lambda>k. 2 * k) [0..<n div 2]"
proof -
  have a: "(\<lambda>k. Suc (k * 2) < n) = (\<lambda>k. k < n div 2)"
    by (rule ext) arith
  have "filter (\<lambda>i. i + 1 < n) (py_range 0 n 2)
        = map (\<lambda>k. k * 2) (filter (\<lambda>k. k < n div 2) [0..<(n + 1) div 2])"
    by (simp add: py_range_def filter_map comp_def a)
  also have "\<dots> = map (\<lambda>k. k * 2) [0..<n div 2]"
    by (subst filter_less_upt) simp_all
  finally show ?thesis by (simp add: mult.commute)
qed

lemma convert_map:
  "convert_to_pixel_values data =
     map (\<lambda>k. data ! (2 * k) OR push_bit 8 (data ! (2 * k + 1))) [0..<length data div 2]"
  unfolding convert_to_pixel_values_def pixel_loop_filter py_range_pairs
  by (simp add: comp_def)


lemma byte_or_shift:
  "0 \<le> lo \<Longrightarrow> lo \<le> 255 \<Longrightarrow> lo OR push_bit 8 hi = lo + 256 * (hi::int)"
proof -
  assume "0 \<le> lo" "lo \<le> 255"
  then have "take_bit 8 lo = lo"
    by (simp add: take_bit_int_eq_self_iff)
  then have "lo OR push_bit 8 hi = concat_bit 8 lo hi"
    by (simp add: concat_bit_def)
  then show ?thesis
    using \<open>take_bit 8 lo = lo\<close> by (simp add: concat_bit_eq push_bit_eq_mult)
qed

lemma convert_butlast:
  assumes "odd (length data)"
  shows "convert_to_pixel_values (butlast data) = convert_to_pixel_values data"
proof -
  have len: "(length data - 1) div 2 = length data div 2"
    using assms by (cases "length data") auto
  have idx: "Suc (2 * k) < length data - 1" if "k < length data div 2" for k
    using assms that by (auto elim!: oddE)
  have "map (\<lambda>k. butlast data ! (2 * k) OR push_bit 8 (butlast data ! Suc (2 * k)))
          [0..<length data div 2]
        = map (\<lambda>k. data ! (2 * k) OR push_bit 8 (data ! Suc (2 * k))) [0..<length data div 2]"
  proof (rule map_cong [OF refl])
    fix k assume "k \<in> set [0..<length data div 2]"
    then have "Suc (2 * k) < length data - 1" using idx by simp
    then show "butlast data ! (2 * k) OR push_bit 8 (butlast data ! Suc (2 * k))
               = data ! (2 * k) OR push_bit 8 (data ! Suc (2 * k))"
      by (simp add: nth_butlast)
  qed
  then show ?thesis
    unfolding convert_map using len by simp
qed

text \<open>
  C1. Decoder correctness: for every buffer the conversion loop of \<open>request_spectrum\<close>
  produces exactly \<open>len div 2\<close> pixel values, pixel \<open>i\<close> being
  \<open>buffer[2i] | (buffer[2i+1] << 8)\<close>; when every element is a byte (0..255) this is
  \<open>buffer[2i] + 256 * buffer[2i+1]\<close>, an unsigned 16-bit value; a buffer of odd length
  decodes as the buffer without its last byte; and the buffer
  \<open>[0x01,0x00, 0xFF,0x00, 0x00,0x01]\<close> decodes to \<open>[1, 255, 256]\<close>.
\<close>

theorem decoder_correct:
  "length (convert_to_pixel_values data) = length data div 2
   \<and> (\<forall>i < length data div 2.
        convert_to_pixel_values data ! i = data ! (2 * i) OR push_bit 8 (data ! (2 * i + 1)))
   \<and> ((\<forall>b \<in> set data. 0 \<le> b \<and> b \<le> 255) \<longrightarrow>
       (\<forall>i < length data div 2.
          convert_to_pixel_values data ! i = data ! (2 * i) + 256 * data ! (2 * i + 1)
          \<and> 0 \<le> convert_to_pixel_values data ! i \<and> convert_to_pixel_values data ! i < 65536))
   \<and> (odd (length data) \<longrightarrow>
        convert_to_pixel_values data = convert_to_pixel_values (butlast data))
   \<and> convert_to_pixel_values [0x01, 0x00, 0xFF, 0x00, 0x00, 0x01] = [1, 255, 256]"
proof (intro conjI)
  show "length (convert_to_pixel_values data) = length data div 2"
    by (simp add: convert_map)
  show "\<forall>i < length data div 2.
        convert_to_pixel_values data ! i = data ! (2 * i) OR push_bit 8 (data ! (2 * i + 1))"
    by (simp add: convert_map)
  show "odd (length data) \<longrightarrow>
        convert_to_pixel_values data = convert_to_pixel_values (butlast data)"
    by (simp add: convert_butlast)
  show "convert_to_pixel_values [0x01, 0x00, 0xFF, 0x00, 0x00, 0x01] = [1, 255, 256]"
    by (simp add: convert_to_pixel_values_def py_range_def upt_rec)
  show "(\<forall>b \<in> set data. 0 \<le> b \<and> b \<le> 255) \<longrightarrow>
       (\<forall>i < length data div 2.
          convert_to_pixel_values data ! i = data ! (2 * i) + 256 * data ! (2 * i + 1)
          \<and> 0 \<le> convert_to_pixel_values data ! i \<and> convert_to_pixel_values data ! i < 65536)"
  proof (intro impI allI)
    fix i
    assume bytes: "\<forall>b \<in> set data. 0 \<le> b \<and> b \<le> 255" and i: "i < length data div 2"
    from i have "2 * i < length data" "2 * i + 1 < length data" by arith+
    then have "data ! (2 * i) \<in> set data" "data ! (2 * i + 1) \<in> set data"
      by (simp_all del: One_nat_def add_Suc_right)
    with bytes have r: "0 \<le> data ! (2 * i)" "data ! (2 * i) \<le> 255"
        "0 \<le> data ! (2 * i + 1)" "data ! (2 * i + 1) \<le> 255"
      by blast+
    have "convert_to_pixel_values data ! i = data ! (2 * i) + 256 * data ! (2 * i + 1)"
      using i r by (simp add: convert_map byte_or_shift)
    with r show "convert_to_pixel_values data ! i = data ! (2 * i) + 256 * data ! (2 * i + 1)
          \<and> 0 \<le> convert_to_pixel_values data ! i \<and> convert_to_pixel_values data ! i < 65536"
      by simp
  qed
qed

theorem decoder_correct_witness:
  "list_all (\<lambda>b. 0 \<le> b \<and> b \<le> 255) [0x34, 0x12, 0x07 :: int]
   \<and> odd (length [0x34, 0x12, 0x07 :: int])
   \<and> (0::nat) < length [0x34, 0x12, 0x07 :: int] div 2
   \<and> convert_to_pixel_values [0x34, 0x12, 0x07] = [0x1234]
   \<and> convert_to_pixel_values [0x34, 0x12, 0x07] ! 0 = 0x34 + 256 * 0x12
   \<and> convert_to_pixel_values [0x34, 0x12, 0x07] = convert_to_pixel_values (butlast [0x34, 0x12, 0x07])"
  using decoder_correct [of "[0x34, 0x12, 0x07]"]
  by (simp add: convert_to_pixel_values_def py_range_def upt_rec)

subsection \<open>The integration-time command\<close>

lemma and_255: "(x::int) AND 255 = x mod 256"
proof -
  have "(255::int) = mask 8" by (simp add: mask_eq_exp_minus_1)
  then have "x AND 255 = take_bit 8 x" by (simp add: take_bit_eq_mask)
  then show ?thesis by (simp add: take_bit_eq_mod)
qed

lemma integration_command_bytes:
  "integration_command time_ms = 0x02 # le_bytes32 (time_ms * 1000)"
  by (simp add: integration_command_def le_bytes32_def Let_def and_255 drop_bit_eq_div)

lemma byte_range: "0 \<le> (x::int) mod 256 \<and> x mod 256 \<le> 255"
proof -
  have "x mod 256 < 256" by simp
  then show ?thesis by simp
qed

lemma le_bytes32_range: "\<not> list_ex (\<lambda>b. b < 0 \<or> 255 < b) (le_bytes32 v)"
  by (simp add: le_bytes32_def not_less byte_range)

lemma split_low_byte: "(v::int) mod (256 * c) = v mod 256 + 256 * (v div 256 mod c)" if "0 \<le> c"
  using that by (simp add: zmod_zmult2_eq)

lemma le_value_le_bytes32: "le_value (le_bytes32 v) = v mod 2 ^ 32"
proof -
  have d2: "v div 65536 = v div 256 div 256"
    by (simp add: zdiv_zmult2_eq [symmetric])
  have d3: "v div 16777216 = v div 256 div 256 div 256"
    by (simp add: zdiv_zmult2_eq [symmetric])
  have "v mod 2 ^ 32 = v mod (256 * 16777216)" by simp
  also have "\<dots> = v mod 256 + 256 * (v div 256 mod (256 * 65536))"
    by (subst split_low_byte) simp_all
  also have "v div 256 mod (256 * 65536)
             = v div 256 mod 256 + 256 * (v div 256 div 256 mod (256 * 256))"
    by (subst split_low_byte) simp_all
  also have "v div 256 div 256 mod (256 * 256)
             = v div 256 div 256 mod 256 + 256 * (v div 256 div 256 div 256 mod 256)"
    by (subst split_low_byte) simp_all
  finally show ?thesis
    by (simp add: le_value_def le_bytes32_def d2 d3)
qed

lemma le_bytes32_mod: "le_bytes32 (v mod 2 ^ 32) = le_bytes32 v"
proof -
  have b: "take_bit 8 (drop_bit n (take_bit 32 v)) = take_bit 8 (drop_bit n v)"
    if "n \<le> 24" for n
    by (rule bit_eqI) (use that in \<open>auto simp add: bit_take_bit_iff bit_drop_bit_eq\<close>)
  have c: "le_bytes32 w = [take_bit 8 (drop_bit 0 w), take_bit 8 (drop_bit 8 w),
                       take_bit 8 (drop_bit 16 w), take_bit 8 (drop_bit 24 w)]" for w
    by (simp add: le_bytes32_def take_bit_eq_mod drop_bit_eq_div)
  have "le_bytes32 (take_bit 32 v) = le_bytes32 v"
    unfolding c by (simp only: b [of 0] b [of 8] b [of 16] b [of 24])
  then show ?thesis by (simp add: take_bit_eq_mod)
qed

lemma set_integration_time_run:
  "set_integration_time d time_ms =
     (case write_outcome d (writes_done d) of
        None \<Rightarrow> (Inr (), d\<lparr>trace := trace d @ [Write 0x01 (0x02 # le_bytes32 (time_ms * 1000)),
                                               Sleep (1 / 10)],
                          writes_done := Suc (writes_done d)\<rparr>)
      | Some e \<Rightarrow> (Inl e, d\<lparr>trace := trace d @ [Write 0x01 (0x02 # le_bytes32 (time_ms * 1000))],
                          writes_done := Suc (writes_done d)\<rparr>))"
  using le_bytes32_range [of "time_ms * 1000"]
  by (simp add: set_integration_time_def dev_write_def integration_command_bytes
      sleep_def Let_def split: option.split)

text \<open>
  C5. Integration-time command encoding: for every \<open>time_ms\<close> with
  \<open>time_ms * 1000 < 2^32\<close>, \<open>set_integration_time\<close> hands to endpoint \<open>0x01\<close> exactly
  the 5-byte packet \<open>[0x02, b0, b1, b2, b3]\<close>, where \<open>b0..b3\<close> is the little-endian
  encoding of \<open>time_us = time_ms * 1000\<close> (for a nonnegative \<open>time_ms\<close> the four bytes
  stand for \<open>time_us\<close> itself); the call raises only what the transport raises, and sleeps
  after a write that was accepted. For \<open>time_ms = 100\<close> the packet is
  \<open>[0x02, 0xA0, 0x86, 0x01, 0x00]\<close>.
\<close>

theorem integration_time_encoding:
  assumes "time_ms * 1000 < 2 ^ 32"
  shows "set_integration_time d time_ms =
           (case write_outcome d (writes_done d) of
              None \<Rightarrow>
                (Inr (), d\<lparr>trace := trace d @ [Write 0x01 (0x02 # le_bytes32 (time_ms * 1000)),
                                               Sleep (1 / 10)],
                          writes_done := Suc (writes_done d)\<rparr>)
            | Some e \<Rightarrow>
                (Inl e, d\<lparr>trace := trace d @ [Write 0x01 (0x02 # le_bytes32 (time_ms * 1000))],
                          writes_done := Suc (writes_done d)\<rparr>))
         \<and> integration_command time_ms = 0x02 # le_bytes32 (time_ms * 1000)
         \<and> length (integration_command time_ms) = 5
         \<and> (0 \<le> time_ms \<longrightarrow> le_value (le_bytes32 (time_ms * 1000)) = time_ms * 1000)
         \<and> integration_command 100 = [0x02, 0xA0, 0x86, 0x01, 0x00]"
proof (intro conjI impI)
  show "integration_command time_ms = 0x02 # le_bytes32 (time_ms * 1000)"
    by (rule integration_command_bytes)
  show "length (integration_command time_ms) = 5"
    by (simp add: integration_command_bytes le_bytes32_def)
  show "integration_command 100 = [0x02, 0xA0, 0x86, 0x01, 0x00]"
    by (simp add: integration_command_bytes le_bytes32_def)
  show "le_value (le_bytes32 (time_ms * 1000)) = time_ms * 1000" if "0 \<le> time_ms"
  proof -
    from that have "0 \<le> time_ms * 1000" by simp
    with assms have "(time_ms * 1000) mod 2 ^ 32 = time_ms * 1000"
      by (simp only: mod_pos_pos_trivial)
    then show ?thesis by (simp only: le_value_le_bytes32)
  qed
qed (rule set_integration_time_run)

theorem integration_time_encoding_witness:
  "(100::int) * 1000 < 2 ^ 32 \<and> (0::int) \<le> 100
   \<and> set_integration_time
        \<lparr>trace = [], write_outcome = (\<lambda>n. None), read_outcome = (\<lambda>n. Inl USBError),
         writes_done = 0, reads_done = 0\<rparr> 100
      = (Inr (),
         \<lparr>trace = [Write 0x01 [0x02, 0xA0, 0x86, 0x01, 0x00], Sleep (1 / 10)],
          write_outcome = (\<lambda>n. None), read_outcome = (\<lambda>n. Inl USBError),
          writes_done = 1, reads_done = 0\<rparr>)
   \<and> le_value [0xA0, 0x86, 0x01, 0x00] = 100 * 1000"
  using integration_time_encoding [of 100
      "\<lparr>trace = [], write_outcome = (\<lambda>n. None), read_outcome = (\<lambda>n. Inl USBError),
        writes_done = 0, reads_done = 0\<rparr>"]
  by (simp add: le_bytes32_def le_value_def)

text \<open>
  C6. Integration-time overflow is silent: for every nonnegative \<open>time_ms\<close> with
  \<open>time_ms * 1000 \<ge> 2^32\<close>, \<open>set_integration_time\<close> raises no error of its own (the
  outcome is the transport's) and still sends a 5-byte packet, whose 4 payload bytes are
  the little-endian encoding of \<open>(time_ms * 1000) mod 2^32\<close>: the high bits are dropped,
  so the payload stands for less than \<open>time_ms * 1000\<close>.
\<close>

theorem integration_time_overflow_silent:
  assumes "0 \<le> time_ms" and "2 ^ 32 \<le> time_ms * 1000"
  shows "set_integration_time d time_ms =
           (case write_outcome d (writes_done d) of
              None \<Rightarrow>
                (Inr (), d\<lparr>trace := trace d @
                              [Write 0x01 (0x02 # le_bytes32 ((time_ms * 1000) mod 2 ^ 32)),
                               Sleep (1 / 10)],
                          writes_done := Suc (writes_done d)\<rparr>)
            | Some e \<Rightarrow>
                (Inl e, d\<lparr>trace := trace d @
                              [Write 0x01 (0x02 # le_bytes32 ((time_ms * 1000) mod 2 ^ 32))],
                          writes_done := Suc (writes_done d)\<rparr>))
         \<and> length (integration_command time_ms) = 5
         \<and> le_value (tl (integration_command time_ms)) = (time_ms * 1000) mod 2 ^ 32
         \<and> le_value (tl (integration_command time_ms)) < time_ms * 1000"
proof (intro conjI)
  show "length (integration_command time_ms) = 5"
    by (simp add: integration_command_bytes le_bytes32_def)
  show v: "le_value (tl (integration_command time_ms)) = (time_ms * 1000) mod 2 ^ 32"
    by (simp only: integration_command_bytes list.sel le_value_le_bytes32)
  have "(time_ms * 1000) mod 2 ^ 32 < 2 ^ 32"
    by (rule pos_mod_bound) simp
  from this assms(2) show "le_value (tl (integration_command time_ms)) < time_ms * 1000"
    unfolding v by (rule less_le_trans)
qed (simp only: le_bytes32_mod set_integration_time_run)

theorem integration_time_overflow_silent_witness:
  "(0::int) \<le> 4294968 \<and> (2::int) ^ 32 \<le> 4294968 * 1000
   \<and> set_integration_time
        \<lparr>trace = [], write_outcome = (\<lambda>n. None), read_outcome = (\<lambda>n. Inl USBError),
         writes_done = 0, reads_done = 0\<rparr> 4294968
      = (Inr (),
         \<lparr>trace = [Write 0x01 [0x02, 0xC0, 0x02, 0x00, 0x00], Sleep (1 / 10)],
          write_outcome = (\<lambda>n. None), read_outcome = (\<lambda>n. Inl USBError),
          writes_done = 1, reads_done = 0\<rparr>)
   \<and> le_value (tl (integration_command 4294968)) = 704"
  using integration_time_overflow_silent [of 4294968
      "\<lparr>trace = [], write_outcome = (\<lambda>n. None), read_outcome = (\<lambda>n. Inl USBError),
        writes_done = 0, reads_done = 0\<rparr>"]
  by (simp add: le_bytes32_def le_value_def)

text \<open>
  C10. Negative integration time wraps: for every negative \<open>time_ms\<close>,
  \<open>set_integration_time\<close> raises no error of its own and sends a 5-byte packet whose 4
  payload bytes are the little-endian encoding of \<open>(time_ms * 1000) mod 2^32\<close>, a
  nonnegative value although \<open>time_ms * 1000\<close> is negative; \<open>time_ms = -1\<close> gives the
  payload \<open>[0x18, 0xFC, 0xFF, 0xFF]\<close>.
\<close>

theorem negative_integration_time_wraps:
  assumes "time_ms < 0"
  shows "set_integration_time d time_ms =
           (case write_outcome d (writes_done d) of
              None \<Rightarrow>
                (Inr (), d\<lparr>trace := trace d @
                              [Write 0x01 (0x02 # le_bytes32 ((time_ms * 1000) mod 2 ^ 32)),
                               Sleep (1 / 10)],
                          writes_done := Suc (writes_done d)\<rparr>)
            | Some e \<Rightarrow>
                (Inl e, d\<lparr>trace := trace d @
                              [Write 0x01 (0x02 # le_bytes32 ((time_ms * 1000) mod 2 ^ 32))],
                          writes_done := Suc (writes_done d)\<rparr>))
         \<and> length (integration_command time_ms) = 5
         \<and> le_value (tl (integration_command time_ms)) = (time_ms * 1000) mod 2 ^ 32
         \<and> time_ms * 1000 < 0 \<and> 0 \<le> le_value (tl (integration_command time_ms))
         \<and> integration_command (- 1) = [0x02, 0x18, 0xFC, 0xFF, 0xFF]"
proof (intro conjI)
  show "length (integration_command time_ms) = 5"
    by (simp add: integration_command_bytes le_bytes32_def)
  show v: "le_value (tl (integration_command time_ms)) = (time_ms * 1000) mod 2 ^ 32"
    by (simp only: integration_command_bytes list.sel le_value_le_bytes32)
  show "time_ms * 1000 < 0" using assms by simp
  show "0 \<le> le_value (tl (integration_command time_ms))"
    unfolding v by simp
  show "integration_command (- 1) = [0x02, 0x18, 0xFC, 0xFF, 0xFF]"
    by (simp add: integration_command_bytes le_bytes32_def)
qed (simp only: le_bytes32_mod set_integration_time_run)

theorem negative_integration_time_wraps_witness:
  "(- 1::int) < 0
   \<and> set_integration_time
        \<lparr>trace = [], write_outcome = (\<lambda>n. None), read_outcome = (\<lambda>n. Inl USBError),
         writes_done = 0, reads_done = 0\<rparr> (- 1)
      = (Inr (),
         \<lparr>trace = [Write 0x01 [0x02, 0x18, 0xFC, 0xFF, 0xFF], Sleep (1 / 10)],
          write_outcome = (\<lambda>n. None), read_outcome = (\<lambda>n. Inl USBError),
          writes_done = 1, reads_done = 0\<rparr>)
   \<and> le_value (tl (integration_command (- 1))) = 4294966296"
  using negative_integration_time_wraps [of "- 1"
      "\<lparr>trace = [], write_outcome = (\<lambda>n. None), read_outcome = (\<lambda>n. Inl USBError),
        writes_done = 0, reads_done = 0\<rparr>"]
  by (simp add: le_bytes32_def le_value_def)

subsection \<open>The spectrum mapper\<close>

lemma linspace_many:
  assumes "1 < n"
  shows "\<exists>ws. linspace start stop (int n) = Inr ws \<and> length ws = n
      \<and> (\<forall>i<n. ws ! i = start + real i * ((stop - start) / real (n - 1)))"
proof -
  define step where "step = (stop - start) / real (n - 1)"
  define y1 where "y1 = (if step = 0
      then map (\<lambda>v. v / real (n - 1) * (stop - start)) (map real [0..<n])
      else map (\<lambda>v. v * step) (map real [0..<n]))"
  define ws where "ws = (map (\<lambda>v. v + start) y1)[n - 1 := stop]"
  from assms have dv: "real_of_int (int n - 1) = real (n - 1)" by simp
  have run: "linspace start stop (int n) = Inr ws"
    using assms unfolding linspace_def Let_def dv ws_def y1_def step_def by simp
  have len: "length ws = n" by (simp add: ws_def y1_def)
  have y1: "y1 ! i = real i * step" if "i < n" for i
  proof (cases "step = 0")
    case True
    with assms have "stop - start = 0" by (simp add: step_def)
    with True that show ?thesis by (simp add: y1_def)
  next
    case False
    with that show ?thesis by (simp add: y1_def)
  qed
  have "ws ! i = start + real i * step" if "i < n" for i
  proof (cases "i = n - 1")
    case True
    from assms have "real (n - 1) * step = stop - start" by (simp add: step_def)
    with True that show ?thesis by (simp add: ws_def y1_def)
  next
    case False
    have "length y1 = n" by (simp add: y1_def)
    with that have "map (\<lambda>v. v + start) y1 ! i = y1 ! i + start" by simp
    with False that show ?thesis by (simp add: ws_def y1)
  qed
  with run len show ?thesis unfolding step_def by blast
qed

lemma linspace_closed_form:
  "linspace start stop (int n) =
     Inr (map (\<lambda>i. if n = 1 then start
                     else start + real i * ((stop - start) / real (n - 1))) [0..<n])"
proof -
  consider "n = 0" | "n = 1" | "1 < n" by linarith
  then show ?thesis
  proof cases
    case 1
    then show ?thesis by (simp add: linspace_def)
  next
    case 2
    then show ?thesis by (simp add: linspace_def)
  next
    case 3
    from linspace_many [OF 3] obtain ws where ws: "linspace start stop (int n) = Inr ws"
      "length ws = n" "\<forall>i<n. ws ! i = start + real i * ((stop - start) / real (n - 1))"
      by blast
    have "ws = map (\<lambda>i. start + real i * ((stop - start) / real (n - 1))) [0..<n]"
      by (rule nth_equalityI) (simp_all add: ws(2,3))
    with 3 ws(1) show ?thesis by simp
  qed
qed

lemma interpret_spectrum_closed_form:
  "interpret_spectrum active_pixels start end =
     Inr (zip (map (\<lambda>i. if length active_pixels = 1 then start
                         else start + real i * ((end - start) / real (length active_pixels - 1)))
                   [0..<length active_pixels])
              active_pixels)"
  by (simp add: interpret_spectrum_def Let_def linspace_closed_form)

text \<open>
  C2. Spectrum mapper length and alignment: for every intensity list of length \<open>N\<close>
  (\<open>N \<ge> 0\<close>) and every start and end wavelength, \<open>interpret_spectrum\<close> raises no error
  and returns a list of exactly \<open>N\<close> (wavelength, intensity) pairs whose intensities are
  the input intensities in order; for \<open>N = 0\<close> the output is the empty list.
\<close>

theorem mapper_length_alignment:
  "(\<exists>spectrum_data.
      interpret_spectrum active_pixels start_wavelength end_wavelength = Inr spectrum_data
      \<and> length spectrum_data = length active_pixels
      \<and> map snd spectrum_data = active_pixels)
   \<and> interpret_spectrum [] start_wavelength end_wavelength = Inr []"
  by (simp add: interpret_spectrum_closed_form)



subsection \<open>The active-pixel slice\<close>





subsection \<open>The read loop\<close>

lemma py_range_unit: "py_range 0 n (Suc 0) = [0..<n]"
  by (simp add: py_range_def map_idI)

lemma read_loop_run:
  assumes "k \<le> length idx"
    and "\<And>j. j < k \<Longrightarrow> read_outcome d (reads_done d + j) = Inr (packet j)"
    and "k < length idx \<Longrightarrow> \<exists>e. read_outcome d (reads_done d + k) = Inl e"
  shows "read_loop idx d data =
           (data @ concat (map packet [0..<k]),
            d\<lparr>trace := trace d @ replicate (min (Suc k) (length idx)) (Read 0x82 512),
              reads_done := reads_done d + min (Suc k) (length idx)\<rparr>)"
  using assms
proof (induction idx arbitrary: d data k packet)
  case Nil
  then show ?case by simp
next
  case (Cons i rest)
  let ?d' = "d\<lparr>trace := trace d @ [Read 0x82 512], reads_done := Suc (reads_done d)\<rparr>"
  show ?case
  proof (cases k)
    case 0
    with Cons.prems(3) obtain e where "read_outcome d (reads_done d) = Inl e" by auto
    with 0 show ?thesis by (simp add: dev_read_def)
  next
    case (Suc k')
    with Cons.prems(2) [of 0] have first: "read_outcome d (reads_done d) = Inr (packet 0)"
      by simp
    have a: "k' \<le> length rest" using Cons.prems(1) Suc by simp
    have b: "read_outcome ?d' (reads_done ?d' + j) = Inr (packet (Suc j))" if "j < k'" for j
      using Cons.prems(2) [of "Suc j"] that Suc by simp
    have c: "\<exists>e. read_outcome ?d' (reads_done ?d' + k') = Inl e" if "k' < length rest"
      using Cons.prems(3) that Suc by simp
    have "read_loop rest ?d' (data @ packet 0) =
           ((data @ packet 0) @ concat (map (\<lambda>j. packet (Suc j)) [0..<k']),
            ?d'\<lparr>trace := trace ?d' @ replicate (min (Suc k') (length rest)) (Read 0x82 512),
              reads_done := reads_done ?d' + min (Suc k') (length rest)\<rparr>)"
      by (rule Cons.IH [OF a b c])
    moreover have "concat (map packet [0..<Suc k'])
        = packet 0 @ concat (map (\<lambda>j. packet (Suc j)) [0..<k'])"
      by (simp add: upt_conv_Cons map_Suc_upt [symmetric] comp_def del: upt_Suc)
    ultimately show ?thesis
      using first Suc by (simp add: dev_read_def del: upt_Suc)
  qed
qed

lemma request_spectrum_run:
  assumes "write_outcome d (writes_done d) = None"
    and "k \<le> 8"
    and "\<And>j. j < k \<Longrightarrow> read_outcome d (reads_done d + j) = Inr (packet j)"
    and "k < 8 \<Longrightarrow> \<exists>e. read_outcome d (reads_done d + k) = Inl e"
  shows "request_spectrum d =
           (Inr (convert_to_pixel_values (concat (map packet [0..<k]))),
            d\<lparr>trace := trace d @ [Write 0x01 [0x09], Sleep (1 / 10)]
                          @ replicate (min (Suc k) 8) (Read 0x82 512),
              writes_done := Suc (writes_done d),
              reads_done := reads_done d + min (Suc k) 8\<rparr>)"
proof -
  let ?d' = "sleep (d\<lparr>trace := trace d @ [Write 0x01 [0x09]],
                       writes_done := Suc (writes_done d)\<rparr>) (1 / 10)"
  have w: "dev_write d 0x01 [0x09]
           = (Inr (), d\<lparr>trace := trace d @ [Write 0x01 [0x09]],
                          writes_done := Suc (writes_done d)\<rparr>)"
    using assms(1) by (simp add: dev_write_def)
  have a: "k \<le> length [0..<8::nat]" using assms(2) by simp
  have b: "read_outcome ?d' (reads_done ?d' + j) = Inr (packet j)" if "j < k" for j
    using assms(3) that by (simp add: sleep_def)
  have c: "\<exists>e. read_outcome ?d' (reads_done ?d' + k) = Inl e" if "k < length [0..<8::nat]"
    using assms(4) that by (simp add: sleep_def)
  have "read_loop [0..<8] ?d' [] =
           ([] @ concat (map packet [0..<k]),
            ?d'\<lparr>trace := trace ?d' @ replicate (min (Suc k) (length [0..<8::nat])) (Read 0x82 512),
              reads_done := reads_done ?d' + min (Suc k) (length [0..<8::nat])\<rparr>)"
    by (rule read_loop_run [OF a b c])
  then show ?thesis
    unfolding request_spectrum_def w
    by (simp add: sleep_def py_range_unit)
qed

text \<open>
  C4. Read-loop truncation: in \<open>request_spectrum\<close>, once the trigger has been written, let
  the first \<open>k\<close> of the 8 reads succeed (\<open>0 \<le> k \<le> 8\<close>) and, when \<open>k < 8\<close>, let read
  \<open>k + 1\<close> raise any error. Then the loop makes no further read (exactly \<open>k + 1\<close> reads
  when \<open>k < 8\<close>, all 8 otherwise), no error comes out of the function, and the pixels are
  decoded from exactly the concatenated bytes of the \<open>k\<close> successful reads.
\<close>

theorem read_loop_truncation:
  assumes "write_outcome d (writes_done d) = None"
    and "k \<le> 8"
    and "\<forall>j<k. read_outcome d (reads_done d + j) = Inr (packet j)"
    and "k < 8 \<longrightarrow> (\<exists>e. read_outcome d (reads_done d + k) = Inl e)"
  shows "fst (request_spectrum d)
           = Inr (convert_to_pixel_values (concat (map packet [0..<k])))
         \<and> reads_done (snd (request_spectrum d))
           = reads_done d + (if k < 8 then k + 1 else 8)
         \<and> trace (snd (request_spectrum d))
           = trace d @ [Write 0x01 [0x09], Sleep (1 / 10)]
               @ replicate (if k < 8 then k + 1 else 8) (Read 0x82 512)"
proof -
  from assms(3) have ok: "\<And>j. j < k \<Longrightarrow> read_outcome d (reads_done d + j) = Inr (packet j)"
    by blast
  from assms(4) have bad: "k < 8 \<Longrightarrow> \<exists>e. read_outcome d (reads_done d + k) = Inl e"
    by blast
  define m where "m = (if k < 8 then k + 1 else 8)"
  from assms(2) have m: "min (Suc k) 8 = m" by (simp add: m_def)
  have run: "request_spectrum d =
           (Inr (convert_to_pixel_values (concat (map packet [0..<k]))),
            d\<lparr>trace := trace d @ [Write 0x01 [0x09], Sleep (1 / 10)]
                          @ replicate m (Read 0x82 512),
              writes_done := Suc (writes_done d),
              reads_done := reads_done d + m\<rparr>)"
    using request_spectrum_run [OF assms(1) assms(2) ok bad] unfolding m .
  show ?thesis
    unfolding m_def [symmetric] run by simp
qed

theorem read_loop_truncation_witness:
  "(3::nat) \<le> 8 \<and> (3::nat) < 8
   \<and> fst (request_spectrum
        \<lparr>trace = [], write_outcome = (\<lambda>n. None),
         read_outcome = (\<lambda>n. if n < 3 then Inr [int n + 1, 0] else Inl USBError),
         writes_done = 0, reads_done = 0\<rparr>) = Inr [1, 2, 3]
   \<and> reads_done (snd (request_spectrum
        \<lparr>trace = [], write_outcome = (\<lambda>n. None),
         read_outcome = (\<lambda>n. if n < 3 then Inr [int n + 1, 0] else Inl USBError),
         writes_done = 0, reads_done = 0\<rparr>)) = 4"
  using read_loop_truncation [of
      "\<lparr>trace = [], write_outcome = (\<lambda>n. None),
        read_outcome = (\<lambda>n. if n < 3 then Inr [int n + 1, 0] else Inl USBError),
        writes_done = 0, reads_done = 0\<rparr>" 3 "\<lambda>j. [int j + 1, 0]"]
  by (simp add: convert_to_pixel_values_def py_range_def upt_rec)

lemma read_loop_length:
  assumes "\<And>j p. j < length idx \<Longrightarrow> read_outcome d (reads_done d + j) = Inr p
             \<Longrightarrow> length p \<le> B"
  shows "length (fst (read_loop idx d data)) \<le> length data + length idx * B"
  using assms
proof (induction idx arbitrary: d data)
  case Nil
  then show ?case by simp
next
  case (Cons i rest)
  let ?d' = "d\<lparr>trace := trace d @ [Read 0x82 512], reads_done := Suc (reads_done d)\<rparr>"
  show ?case
  proof (cases "read_outcome d (reads_done d)")
    case (Inl e)
    then show ?thesis by (simp add: dev_read_def)
  next
    case (Inr p)
    with Cons.prems [of 0 p] have p: "length p \<le> B" by simp
    have "length (fst (read_loop rest ?d' (data @ p))) \<le> length (data @ p) + length rest * B"
    proof (rule Cons.IH)
      fix j q
      assume "j < length rest" "read_outcome ?d' (reads_done ?d' + j) = Inr q"
      with Cons.prems [of "Suc j" q] show "length q \<le> B" by simp
    qed
    with p Inr show ?thesis by (simp add: dev_read_def)
  qed
qed

text \<open>
  C7. Pixel-count bound: when each successful read returns at most 512 bytes, the pixel
  list returned by \<open>request_spectrum\<close> has length at most 2048, however many of the 8
  reads succeed.
\<close>

theorem pixel_count_bound:
  assumes "\<forall>j<8. \<forall>p. read_outcome d (reads_done d + j) = Inr p \<longrightarrow> length p \<le> 512"
    and "request_spectrum d = (Inr pixels, d')"
  shows "length pixels \<le> 2048"
proof -
  let ?d1 = "sleep (d\<lparr>trace := trace d @ [Write 0x01 [0x09]],
                       writes_done := Suc (writes_done d)\<rparr>) (1 / 10)"
  from assms(2) have px: "pixels = convert_to_pixel_values (fst (read_loop [0..<8] ?d1 []))"
    by (auto simp add: request_spectrum_def dev_write_def py_range_unit Let_def
        split: option.splits prod.splits)
  have "length (fst (read_loop [0..<8] ?d1 [])) \<le> length ([]::int list) + length [0..<8::nat] * 512"
  proof (rule read_loop_length)
    fix j p
    assume "j < length [0..<8::nat]" "read_outcome ?d1 (reads_done ?d1 + j) = Inr p"
    with assms(1) show "length p \<le> 512" by (simp add: sleep_def)
  qed
  then have "length (fst (read_loop [0..<8] ?d1 [])) \<le> 4096" by simp
  then show ?thesis unfolding px convert_map by simp
qed

theorem pixel_count_bound_witness:
  "request_spectrum
     \<lparr>trace = [], write_outcome = (\<lambda>n. None), read_outcome = (\<lambda>n. Inr [0xFF, 0x00]),
      writes_done = 0, reads_done = 0\<rparr>
   = (Inr [255, 255, 255, 255, 255, 255, 255, 255],
      \<lparr>trace = [Write 0x01 [0x09], Sleep (1 / 10),
                Read 0x82 512, Read 0x82 512, Read 0x82 512, Read 0x82 512,
                Read 0x82 512, Read 0x82 512, Read 0x82 512, Read 0x82 512],
       write_outcome = (\<lambda>n. None), read_outcome = (\<lambda>n. Inr [0xFF, 0x00]),
       writes_done = 1, reads_done = 8\<rparr>)
   \<and> length [255, 255, 255, 255, 255, 255, 255, 255 :: int] \<le> 2048"
proof -
  let ?d = "\<lparr>trace = [], write_outcome = (\<lambda>n. None), read_outcome = (\<lambda>n. Inr [0xFF, 0x00]),
      writes_done = 0, reads_done = 0\<rparr>"
  have run: "request_spectrum ?d
   = (Inr [255, 255, 255, 255, 255, 255, 255, 255],
      \<lparr>trace = [Write 0x01 [0x09], Sleep (1 / 10),
                Read 0x82 512, Read 0x82 512, Read 0x82 512, Read 0x82 512,
                Read 0x82 512, Read 0x82 512, Read 0x82 512, Read 0x82 512],
       write_outcome = (\<lambda>n. None), read_outcome = (\<lambda>n. Inr [0xFF, 0x00]),
       writes_done = 1, reads_done = 8\<rparr>)"
    by (simp add: request_spectrum_def dev_write_def dev_read_def sleep_def py_range_def
        convert_to_pixel_values_def upt_rec)
  have "\<forall>j<8. \<forall>p. read_outcome ?d (reads_done ?d + j) = Inr p \<longrightarrow> length p \<le> 512"
    by simp
  from pixel_count_bound [OF this run] run show ?thesis by simp
qed

subsection \<open>The sleeps of a run\<close>








end
